theory Spec2Isabelle
  imports Main
begin

section \<open>The event logger of \<open>apps/backend/src/lib/events.tsx\<close>\<close>

text \<open>
  The module declares event types (an identifier, a data schema and a list of inherited
  event types), a registry of the four system event types, and one operation,
  \<open>logEvent\<close>, which checks the requested types against the registry, collects every type
  of the inheritance chain, validates the payload against each collected schema in turn and
  creates one event row.

  Event types are JavaScript objects, and the \<open>Set\<close> that collects them compares object
  identity. The model therefore keeps the objects in a store: an event type is referred to
  by its address, and the store maps each address to the object found there. A program
  holds finitely many objects, so the address type is finite.
\<close>

subsection \<open>Data model\<close>

text \<open>A \<open>Date\<close>, as its number of milliseconds since the epoch.\<close>

type_synonym Date = int

text \<open>The two options that \<open>logEvent\<close> hands to \<open>yup\<close>'s \<open>validate\<close>.\<close>

record ValidateOptions =
  strict :: bool
  stripUnknown :: bool

text \<open>
  A value thrown by a collaborator (\<open>yup\<close>, the database client), classified the way the
  \<open>catch\<close> block of \<open>logEvent\<close> classifies it: an instance of \<open>yup.ValidationError\<close>, or
  anything else.
\<close>

datatype 'x Thrown = ValidationError 'x | OtherError 'x

text \<open>
  \<open>yup.Schema\<close> is a library type. The model takes a schema as the object it is: its
  \<open>validate\<close> method, which receives the value and the options and either resolves to a
  value or rejects with a thrown value.
\<close>

record ('d, 'x) Schema =
  validate :: "'d \<Rightarrow> ValidateOptions \<Rightarrow> 'x Thrown + 'd"

text \<open>\<open>type EventType = { id, dataSchema, inherits }\<close>; \<open>inherits\<close> holds addresses.\<close>

record ('r, 'd, 'x) EventType =
  id' :: string
  dataSchema :: "('d, 'x) Schema"
  inherits :: "'r list"

type_synonym ('r, 'd, 'x) Heap = "'r \<Rightarrow> ('r, 'd, 'x) EventType"

text \<open>The \<open>time\<close> option: a \<open>Date\<close> or a \<open>{ start, end }\<close> object.\<close>

record TimeRange =
  start :: Date
  end' :: Date

datatype TimeOrTimeRange = ADate Date | ATimeRange TimeRange

record Options =
  time :: "TimeOrTimeRange option"

text \<open>The \<open>data\<close> argument of \<open>prismaClient.event.create\<close>.\<close>

record 'd EventRecord =
  systemEventTypeIds :: "string list"
  data :: 'd
  isWide :: bool
  eventStartedAt :: Date
  eventEndedAt :: Date

text \<open>
  What \<open>logEvent\<close> throws. A \<open>StackAssertionError\<close> has a message, the extra data object
  and an optional cause; the extra data is \<open>{ eventType }\<close> for the two registry checks and
  \<open>{ eventType, data, error, originalData, originalEventTypes }\<close> for a validation error.
  Any other thrown value passes through as it is.
\<close>

datatype ('r, 'd, 'x) ExtraData =
    EventTypeExtra 'r
  | InvalidDataExtra 'r 'd "'x Thrown" 'd "'r list"

datatype ('r, 'd, 'x) Failure =
    StackAssertionError string "('r, 'd, 'x) ExtraData" "'x Thrown option"
  | Rethrown "'x Thrown"

subsection \<open>The registry of system event types\<close>

datatype SystemEventTypeRef =
  ProjectEventType | ProjectActivityEventType | UserActivityEventType | ApiRequestEventType

text \<open>
  The four constants. Their schemas are built with \<open>yupObject\<close>, \<open>yupString\<close>, \<open>yupMixed\<close> and
  \<open>urlSchema\<close> of another package, so the schemas are a parameter here.
\<close>

fun SystemEventTypeObjects ::
  "(SystemEventTypeRef \<Rightarrow> ('d, 'x) Schema) \<Rightarrow> (SystemEventTypeRef, 'd, 'x) Heap" where
  "SystemEventTypeObjects schemas ProjectEventType =
     \<lparr>id' = ''$project'', dataSchema = schemas ProjectEventType, inherits = []\<rparr>"
| "SystemEventTypeObjects schemas ProjectActivityEventType =
     \<lparr>id' = ''$project-activity'', dataSchema = schemas ProjectActivityEventType,
      inherits = [ProjectEventType]\<rparr>"
| "SystemEventTypeObjects schemas UserActivityEventType =
     \<lparr>id' = ''$user-activity'', dataSchema = schemas UserActivityEventType,
      inherits = [ProjectActivityEventType]\<rparr>"
| "SystemEventTypeObjects schemas ApiRequestEventType =
     \<lparr>id' = ''$api-request'', dataSchema = schemas ApiRequestEventType,
      inherits = [ProjectEventType]\<rparr>"

definition SystemEventTypes :: "SystemEventTypeRef list" where
  "SystemEventTypes =
     [ProjectEventType, ProjectActivityEventType, UserActivityEventType, ApiRequestEventType]"

text \<open>
  \<open>new Map(Object.values(SystemEventTypes).map(eventType => [eventType.id, eventType]))\<close>.
  The keys do not depend on the schemas.
\<close>

definition systemEventTypesById :: "string \<rightharpoonup> SystemEventTypeRef" where
  "systemEventTypesById =
     map_of (map (\<lambda>eventType.
        (id' (SystemEventTypeObjects (\<lambda>_. \<lparr>validate = (\<lambda>d _. Inr d)\<rparr> :: (unit, unit) Schema)
               eventType), eventType))
       SystemEventTypes)"

definition systemEventTypesById_has :: "string \<Rightarrow> bool" where
  "systemEventTypesById_has i = (systemEventTypesById i \<noteq> None)"

subsection \<open>\<open>logEvent\<close>\<close>

text \<open>\<open>String.prototype.startsWith\<close>.\<close>

definition startsWith :: "string \<Rightarrow> string \<Rightarrow> bool" where
  "startsWith s p = (take (length p) s = p)"

text \<open>
  The first loop: \<open>for (const eventType of eventTypes)\<close> throws at the first requested type
  whose identifier does not start with \<open>$\<close> or is not a key of the registry.
\<close>

fun assertEventTypesValid ::
  "('r, 'd, 'x) Heap \<Rightarrow> 'r list \<Rightarrow> ('r, 'd, 'x) Failure option" where
  "assertEventTypesValid h [] = None"
| "assertEventTypesValid h (eventType # rest) =
     (if startsWith (id' (h eventType)) ''$'' then
        (if \<not> systemEventTypesById_has (id' (h eventType)) then
           Some (StackAssertionError (''Invalid system event type: '' @ id' (h eventType))
                   (EventTypeExtra eventType) None)
         else assertEventTypesValid h rest)
      else
        Some (StackAssertionError ''Non-system event types are not supported yet''
                (EventTypeExtra eventType) None))"

text \<open>
  The closure \<open>addEventType\<close> and the \<open>forEach(addEventType)\<close> that calls it, over the set
  \<open>allEventTypes\<close>. A JavaScript \<open>Set\<close> iterates in insertion order, so the set is the list
  of its members in the order they were added.
\<close>

function addEventType :: "('r::finite, 'd, 'x) Heap \<Rightarrow> 'r \<Rightarrow> 'r list \<Rightarrow> 'r list"
  and forEach_addEventType :: "('r::finite, 'd, 'x) Heap \<Rightarrow> 'r list \<Rightarrow> 'r list \<Rightarrow> 'r list"
where
  "addEventType h eventType allEventTypes =
     (if eventType \<in> set allEventTypes then allEventTypes
      else forEach_addEventType h (inherits (h eventType)) (allEventTypes @ [eventType]))"
| "forEach_addEventType h [] allEventTypes = allEventTypes"
| "forEach_addEventType h (eventType # rest) allEventTypes =
     forEach_addEventType h rest (addEventType h eventType allEventTypes)"
  by pat_completeness auto

text \<open>
  The second loop: \<open>for (const eventType of allEventTypes)\<close> replaces \<open>data\<close> (here
  \<open>data0\<close>, since \<open>data\<close> is also a field of the event row) by what the schema resolves to. A \<open>yup.ValidationError\<close> is wrapped with the event type, the data the
  failing schema received, the error, the original data and the requested event types;
  anything else is thrown again.
\<close>

fun validateAndTransform ::
  "('r, 'd, 'x) Heap \<Rightarrow> 'd \<Rightarrow> 'r list \<Rightarrow> 'r list \<Rightarrow> 'd \<Rightarrow> ('r, 'd, 'x) Failure + 'd" where
  "validateAndTransform h originalData eventTypes [] data0 = Inr data0"
| "validateAndTransform h originalData eventTypes (eventType # rest) data0 =
     (case validate (dataSchema (h eventType)) data0 \<lparr>strict = True, stripUnknown = False\<rparr> of
        Inr data1 \<Rightarrow> validateAndTransform h originalData eventTypes rest data1
      | Inl error \<Rightarrow>
          (case error of
             ValidationError _ \<Rightarrow>
               Inl (StackAssertionError
                      (''Invalid event data for event type: '' @ id' (h eventType))
                      (InvalidDataExtra eventType data0 error originalData eventTypes)
                      (Some error))
           | OtherError _ \<Rightarrow> Inl (Rethrown error)))"

text \<open>
  \<open>prismaClient.event.create\<close>: the database client is outside the module. The model
  records every call (the list of the rows it was asked to create) and takes from a
  parameter whether the call rejects.
\<close>

definition event_create ::
  "('d EventRecord \<Rightarrow> 'x Thrown option) \<Rightarrow> 'd EventRecord \<Rightarrow> 'd EventRecord list
     \<Rightarrow> 'x Thrown option \<times> 'd EventRecord list" where
  "event_create prismaClient row calls = (prismaClient row, calls @ [row])"

text \<open>
  \<open>logEvent(eventTypes, data, options)\<close>, in the store \<open>h\<close>, with \<open>now\<close> for \<open>new Date()\<close>.
  It returns what it throws, if anything, and the calls the database client has seen.
  \<open>timeOrTimeRange === timeRange\<close> compares identities: it holds when the conditional
  returned \<open>timeOrTimeRange\<close> itself, and fails when it built a new object from a \<open>Date\<close>.
\<close>

definition logEvent ::
  "('r::finite, 'd, 'x) Heap \<Rightarrow> Date \<Rightarrow> ('d EventRecord \<Rightarrow> 'x Thrown option)
     \<Rightarrow> 'r list \<Rightarrow> 'd \<Rightarrow> Options \<Rightarrow> 'd EventRecord list
     \<Rightarrow> (('r, 'd, 'x) Failure + unit) \<times> 'd EventRecord list" where
  "logEvent h now prismaClient eventTypes data0 options calls =
     (let timeOrTimeRange = (case time options of None \<Rightarrow> ADate now | Some t \<Rightarrow> t);
          timeRange = (case timeOrTimeRange of
                         ATimeRange r \<Rightarrow> r
                       | ADate d \<Rightarrow> \<lparr>start = d, end' = d\<rparr>);
          isWide = (timeOrTimeRange = ATimeRange timeRange)
      in case assertEventTypesValid h eventTypes of
           Some failure \<Rightarrow> (Inl failure, calls)
         | None \<Rightarrow>
             (let allEventTypes = forEach_addEventType h eventTypes [];
                  originalData = data0
              in case validateAndTransform h originalData eventTypes allEventTypes data0 of
                   Inl failure \<Rightarrow> (Inl failure, calls)
                 | Inr data1 \<Rightarrow>
                     (case event_create prismaClient
                             \<lparr>systemEventTypeIds = map (\<lambda>eventType. id' (h eventType)) allEventTypes,
                              data = data1,
                              isWide = isWide,
                              eventStartedAt = start timeRange,
                              eventEndedAt = end' timeRange\<rparr> calls of
                        (Some thrown, calls') \<Rightarrow> (Inl (Rethrown thrown), calls')
                      | (None, calls') \<Rightarrow> (Inr (), calls'))))"

subsection \<open>What the specification speaks of\<close>

text \<open>
  The closure of a list of requested types, in the specification's words: the requested
  types and every type that the \<open>inherits\<close> relation reaches from them.
\<close>

inductive reachable :: "('r, 'd, 'x) Heap \<Rightarrow> 'r list \<Rightarrow> 'r \<Rightarrow> bool"
  for h :: "('r, 'd, 'x) Heap" and requested :: "'r list" where
  requested: "t \<in> set requested \<Longrightarrow> reachable h requested t"
| inherited: "reachable h requested t \<Longrightarrow> p \<in> set (inherits (h t)) \<Longrightarrow> reachable h requested p"

text \<open>
  The validation pipeline, in the specification's words: the schemas of a list of event
  types applied one after the other in strict mode and without stripping unknown fields,
  each to the output of the one before; \<open>None\<close> when one of them rejects.
\<close>

primrec applySchemas :: "('r, 'd, 'x) Heap \<Rightarrow> 'r list \<Rightarrow> 'd \<Rightarrow> 'd option" where
  "applySchemas h [] d = Some d"
| "applySchemas h (t # ts) d =
     (case validate (dataSchema (h t)) d \<lparr>strict = True, stripUnknown = False\<rparr> of
        Inl _ \<Rightarrow> None
      | Inr d' \<Rightarrow> applySchemas h ts d')"

text \<open>
  The type-set precondition, in the specification's words: the identifier is in the system
  namespace and present in the registry index.
\<close>

definition permitted :: "('r, 'd, 'x) Heap \<Rightarrow> 'r \<Rightarrow> bool" where
  "permitted h t = (startsWith (id' (h t)) ''$'' \<and> systemEventTypesById_has (id' (h t)))"

subsection \<open>Objects for the examples\<close>

text \<open>Four addresses, for stores that are not the registry.\<close>

datatype Addr = A | B | C | D

text \<open>The diamond: \<open>A\<close> inherits from \<open>B\<close> and \<open>C\<close>, which both inherit from \<open>D\<close>.\<close>

fun diamond :: "(Addr \<Rightarrow> ('d, 'x) Schema) \<Rightarrow> (Addr, 'd, 'x) Heap" where
  "diamond schemas A = \<lparr>id' = ''$a'', dataSchema = schemas A, inherits = [B, C]\<rparr>"
| "diamond schemas B = \<lparr>id' = ''$b'', dataSchema = schemas B, inherits = [D]\<rparr>"
| "diamond schemas C = \<lparr>id' = ''$c'', dataSchema = schemas C, inherits = [D]\<rparr>"
| "diamond schemas D = \<lparr>id' = ''$d'', dataSchema = schemas D, inherits = []\<rparr>"

text \<open>
  A store where the requested type \<open>A\<close> is a registered system type, and its parents are not:
  \<open>B\<close> has an identifier outside the system namespace and \<open>C\<close> one that the registry does
  not hold. \<open>D\<close> is registered and inherits from nothing.
\<close>

fun example :: "(Addr \<Rightarrow> ('d, 'x) Schema) \<Rightarrow> (Addr, 'd, 'x) Heap" where
  "example schemas A = \<lparr>id' = ''$user-activity'', dataSchema = schemas A, inherits = [B, C]\<rparr>"
| "example schemas B = \<lparr>id' = ''page-view'', dataSchema = schemas B, inherits = []\<rparr>"
| "example schemas C = \<lparr>id' = ''$unregistered'', dataSchema = schemas C, inherits = []\<rparr>"
| "example schemas D = \<lparr>id' = ''$project'', dataSchema = schemas D, inherits = []\<rparr>"

text \<open>
  A payload for the examples: an object as a map from field names to strings. A schema
  that requires one field rejects with a validation error that names the field when the
  field is missing, and resolves to the value it received otherwise.
\<close>

type_synonym Payload = "string \<rightharpoonup> string"

definition requiresField :: "string \<Rightarrow> (Payload, string) Schema" where
  "requiresField f =
     \<lparr>validate = (\<lambda>d _. case d f of None \<Rightarrow> Inl (ValidationError f) | Some _ \<Rightarrow> Inr d)\<rparr>"

definition anyObject :: "(Payload, string) Schema" where
  "anyObject = \<lparr>validate = (\<lambda>d _. Inr d)\<rparr>"

text \<open>A schema whose \<open>validate\<close> throws something that is not a validation error.\<close>

definition brokenSchema :: "(Payload, string) Schema" where
  "brokenSchema = \<lparr>validate = (\<lambda>d _. Inl (OtherError ''TypeError''))\<rparr>"

text \<open>
  Schemas for the four system types in the examples, each keeping one required field of the
  source's schema: \<open>projectId\<close>, none, \<open>userId\<close>, \<open>method\<close>.
\<close>

fun exampleSchemas :: "SystemEventTypeRef \<Rightarrow> (Payload, string) Schema" where
  "exampleSchemas ProjectEventType = requiresField ''projectId''"
| "exampleSchemas ProjectActivityEventType = anyObject"
| "exampleSchemas UserActivityEventType = requiresField ''userId''"
| "exampleSchemas ApiRequestEventType = requiresField ''method''"

text \<open>A payload with the two fields that \<open>$user-activity\<close> and its ancestors require, and one more.\<close>

definition examplePayload :: Payload where
  "examplePayload = [''projectId'' \<mapsto> ''p1'', ''userId'' \<mapsto> ''u1'', ''extra'' \<mapsto> ''x'']"


section \<open>Termination of the traversal\<close>

instance SystemEventTypeRef :: finite
proof
  have "(UNIV :: SystemEventTypeRef set) =
      {ProjectEventType, ProjectActivityEventType, UserActivityEventType, ApiRequestEventType}"
    using SystemEventTypeRef.exhaust by auto
  then show "finite (UNIV :: SystemEventTypeRef set)"
    by (metis finite.emptyI finite.insertI)
qed

instance Addr :: finite
proof
  have "(UNIV :: Addr set) = {A, B, C, D}"
    using Addr.exhaust by auto
  then show "finite (UNIV :: Addr set)"
    by (metis finite.emptyI finite.insertI)
qed

text \<open>Where the traversal returns, it has only added to the set.\<close>

lemma addEventType_grows:
  "addEventType_forEach_addEventType_dom (Inl (h, t, a)) \<Longrightarrow> set a \<subseteq> set (addEventType h t a)"
  "addEventType_forEach_addEventType_dom (Inr (h, ts, a)) \<Longrightarrow>
     set a \<subseteq> set (forEach_addEventType h ts a)"
  by (induct h t a and h ts a rule: addEventType_forEach_addEventType.pinduct)
     (auto simp: addEventType.psimps forEach_addEventType.psimps split: if_splits)

lemma unvisited_less:
  "t \<notin> set a \<Longrightarrow> card (- set (a @ [t :: 'r::finite])) < card (- set a)"
  by (rule psubset_card_mono) auto

lemma unvisited_le:
  "set a \<subseteq> set b \<Longrightarrow> card (- set (b :: ('r::finite) list)) \<le> card (- set a)"
  by (rule card_mono) auto

text \<open>
  Every call either adds a type that was not in the set, of which there are finitely many,
  or moves on in a list without removing anything from the set.
\<close>

termination addEventType
proof (relation "inv_image (less_than <*lex*> less_than)
    (\<lambda>c. case c of Inl (h, t, a) \<Rightarrow> (card (- set a), 0)
                 | Inr (h, ts, a) \<Rightarrow> (card (- set a), Suc (length ts)))", goal_cases)
  case 1
  show ?case by (intro wf_inv_image wf_lex_prod wf_less_than)
next
  case (2 h t a)
  then show ?case using unvisited_less[of t a] by simp
next
  case (3 h t ts a)
  show ?case by simp
next
  case (4 h t ts a)
  then have "set a \<subseteq> set (addEventType h t a)" by (rule addEventType_grows(1))
  from unvisited_le[OF this] show ?case by auto
qed

section \<open>The traversal computes the reachable types\<close>

lemma closure_grows:
  fixes h :: "('r::finite, 'd, 'x) Heap"
  shows "set a \<subseteq> set (addEventType h t a)"
    and "set a \<subseteq> set (forEach_addEventType h ts a)"
  by (induct h t a and h ts a rule: addEventType_forEach_addEventType.induct) auto

lemma closure_contains:
  fixes h :: "('r::finite, 'd, 'x) Heap"
  shows "t \<in> set (addEventType h t a)"
    and "set ts \<subseteq> set (forEach_addEventType h ts a)"
proof (induct h t a and h ts a rule: addEventType_forEach_addEventType.induct)
  case (1 h eventType allEventTypes)
  then show ?case using closure_grows(2)[of "allEventTypes @ [eventType]" h "inherits (h eventType)"] by auto
next
  case (2 h allEventTypes)
  then show ?case by simp
next
  case (3 h eventType rest allEventTypes)
  then show ?case using closure_grows(2)[of "addEventType h eventType allEventTypes" h rest] by auto
qed

lemma closure_distinct:
  fixes h :: "('r::finite, 'd, 'x) Heap"
  shows "distinct a \<Longrightarrow> distinct (addEventType h t a)"
    and "distinct a \<Longrightarrow> distinct (forEach_addEventType h ts a)"
  by (induct h t a and h ts a rule: addEventType_forEach_addEventType.induct) auto

lemma closure_closed:
  fixes h :: "('r::finite, 'd, 'x) Heap"
  shows "x \<in> set (addEventType h t a) \<Longrightarrow> x \<notin> set a \<Longrightarrow>
           set (inherits (h x)) \<subseteq> set (addEventType h t a)"
    and "x \<in> set (forEach_addEventType h ts a) \<Longrightarrow> x \<notin> set a \<Longrightarrow>
           set (inherits (h x)) \<subseteq> set (forEach_addEventType h ts a)"
proof (induct h t a and h ts a arbitrary: x and x rule: addEventType_forEach_addEventType.induct)
  case (1 h eventType allEventTypes)
  show ?case
  proof (cases "eventType \<in> set allEventTypes")
    case True
    with 1 show ?thesis by simp
  next
    case False
    show ?thesis
    proof (cases "x = eventType")
      case True
      with False show ?thesis
        using closure_contains(2)[of "inherits (h eventType)" h "allEventTypes @ [eventType]"]
        by simp
    next
      case neq: False
      with 1 False show ?thesis by simp
    qed
  qed
next
  case (2 h allEventTypes)
  then show ?case by simp
next
  case (3 h eventType rest allEventTypes)
  let ?mid = "addEventType h eventType allEventTypes"
  show ?case
  proof (cases "x \<in> set ?mid")
    case True
    with 3 have "set (inherits (h x)) \<subseteq> set ?mid" by simp
    also have "\<dots> \<subseteq> set (forEach_addEventType h rest ?mid)" by (rule closure_grows(2))
    finally show ?thesis by simp
  next
    case False
    with 3 show ?thesis by simp
  qed
qed

lemma reachable_mono:
  "reachable h ts x \<Longrightarrow> set ts \<subseteq> set ts' \<Longrightarrow> reachable h ts' x"
  by (induction rule: reachable.induct) (auto intro: reachable.intros)

lemma reachable_inherits:
  "reachable h (inherits (h t)) x \<Longrightarrow> reachable h [t] x"
proof (induction rule: reachable.induct)
  case (requested p)
  have "reachable h [t] t" by (rule reachable.requested) simp
  then show ?case using requested by (rule reachable.inherited)
next
  case (inherited q p)
  then show ?case by (blast intro: reachable.inherited)
qed

lemma closure_sound:
  fixes h :: "('r::finite, 'd, 'x) Heap"
  shows "x \<in> set (addEventType h t a) \<Longrightarrow> x \<in> set a \<or> reachable h [t] x"
    and "x \<in> set (forEach_addEventType h ts a) \<Longrightarrow> x \<in> set a \<or> reachable h ts x"
proof (induct h t a and h ts a arbitrary: x and x rule: addEventType_forEach_addEventType.induct)
  case (1 h eventType allEventTypes)
  show ?case
  proof (cases "eventType \<in> set allEventTypes")
    case True
    with 1 show ?thesis by simp
  next
    case False
    with 1 have "x \<in> set (allEventTypes @ [eventType]) \<or> reachable h (inherits (h eventType)) x"
      by simp
    then show ?thesis
      by (auto intro: reachable.requested reachable_inherits)
  qed
next
  case (2 h allEventTypes)
  then show ?case by simp
next
  case (3 h eventType rest allEventTypes)
  then have "x \<in> set (addEventType h eventType allEventTypes) \<or> reachable h rest x" by simp
  then show ?case
  proof
    assume "x \<in> set (addEventType h eventType allEventTypes)"
    with 3 have "x \<in> set allEventTypes \<or> reachable h [eventType] x" by simp
    then show ?thesis by (auto intro: reachable_mono)
  next
    assume "reachable h rest x"
    then show ?thesis by (auto intro: reachable_mono)
  qed
qed

lemma closure_complete:
  fixes h :: "('r::finite, 'd, 'x) Heap"
  assumes "reachable h ts x"
  shows "x \<in> set (forEach_addEventType h ts [])"
  using assms
proof (induction rule: reachable.induct)
  case (requested t)
  then show ?case using closure_contains(2)[of ts h "[]"] by auto
next
  case (inherited t p)
  then show ?case using closure_closed(2)[of t h ts "[]"] by auto
qed

lemma closure_reachable:
  fixes h :: "('r::finite, 'd, 'x) Heap"
  shows "x \<in> set (forEach_addEventType h ts []) \<longleftrightarrow> reachable h ts x"
  using closure_sound(2)[of x h ts "[]"] closure_complete[of h ts x] by auto


lemma reachable_trans:
  "reachable h [a] b \<Longrightarrow> reachable h ts a \<Longrightarrow> reachable h ts b"
proof (induction rule: reachable.induct)
  case (requested t)
  then show ?case by simp
next
  case (inherited t p)
  then show ?case by (blast intro: reachable.inherited)
qed

lemma count_list_distinct:
  "distinct xs \<Longrightarrow> count_list xs x = (if x \<in> set xs then 1 else 0)"
  by (induction xs) auto

section \<open>Closure resolution\<close>

text \<open>
  Claim C4. In a diamond (\<open>a\<close> inherits from \<open>b\<close> and \<open>c\<close>, which both inherit from \<open>d\<close>, which
  inherits from nothing; four different objects), the traversal from \<open>[a]\<close> collects
  \<open>a\<close>, \<open>b\<close>, \<open>d\<close>, \<open>c\<close>, each once. In every store and for every requested list, a type
  occurs in the collected list once when the \<open>inherits\<close> relation reaches it from a requested
  type, along however many paths, and does not occur otherwise.
\<close>

theorem closure_diamond_and_once:
  fixes h :: "('r::finite, 'd, 'x) Heap"
  shows "(distinct [a, b, c, d] \<and> inherits (h a) = [b, c] \<and> inherits (h b) = [d]
            \<and> inherits (h c) = [d] \<and> inherits (h d) = []
          \<longrightarrow> forEach_addEventType h [a] [] = [a, b, d, c]
              \<and> set (forEach_addEventType h [a] []) = {a, b, c, d})
       \<and> (\<forall>x. count_list (forEach_addEventType h ts []) x = (if reachable h ts x then 1 else 0))"
proof (intro conjI impI allI)
  assume dia: "distinct [a, b, c, d] \<and> inherits (h a) = [b, c] \<and> inherits (h b) = [d]
            \<and> inherits (h c) = [d] \<and> inherits (h d) = []"
  then show eq: "forEach_addEventType h [a] [] = [a, b, d, c]" by auto
  show "set (forEach_addEventType h [a] []) = {a, b, c, d}" unfolding eq by auto
next
  fix x
  have "distinct (forEach_addEventType h ts [])" by (rule closure_distinct(2)) simp
  then show "count_list (forEach_addEventType h ts []) x = (if reachable h ts x then 1 else 0)"
    by (simp add: count_list_distinct closure_reachable)
qed

theorem closure_diamond_and_once_witness:
  "forEach_addEventType (diamond (\<lambda>_. anyObject)) [A] [] = [A, B, D, C]
   \<and> reachable (diamond (\<lambda>_. anyObject)) [A] D"
proof -
  let ?h = "diamond (\<lambda>_. anyObject)"
  note inst = closure_diamond_and_once [of A B C D ?h "[A]"]
  have dia: "distinct [A, B, C, D] \<and> inherits (?h A) = [B, C] \<and> inherits (?h B) = [D]
      \<and> inherits (?h C) = [D] \<and> inherits (?h D) = []"
    by simp
  with inst have eq: "forEach_addEventType ?h [A] [] = [A, B, D, C]" by blast
  from inst have "count_list (forEach_addEventType ?h [A] []) D = (if reachable ?h [A] D then 1 else 0)"
    by blast
  then have "reachable ?h [A] D" unfolding eq by (simp split: if_splits)
  with eq show ?thesis by simp
qed

text \<open>
  Claim C5. The types collected from the parents of \<open>t\<close> are among the types collected from
  \<open>t\<close>, and whatever is collected from a type collected from \<open>t\<close> is collected from \<open>t\<close>.
  This holds in every store, acyclic or not.
\<close>

theorem closure_transitive:
  fixes h :: "('r::finite, 'd, 'x) Heap"
  shows "set (forEach_addEventType h (inherits (h t)) []) \<subseteq> set (forEach_addEventType h [t] [])
       \<and> (a \<in> set (forEach_addEventType h [t] []) \<longrightarrow> b \<in> set (forEach_addEventType h [a] [])
            \<longrightarrow> b \<in> set (forEach_addEventType h [t] []))"
proof -
  have "x \<in> set (forEach_addEventType h (inherits (h t)) [])
          \<Longrightarrow> x \<in> set (forEach_addEventType h [t] [])" for x
    by (simp only: closure_reachable) (rule reachable_inherits)
  moreover have "a \<in> set (forEach_addEventType h [t] []) \<Longrightarrow>
      b \<in> set (forEach_addEventType h [a] []) \<Longrightarrow> b \<in> set (forEach_addEventType h [t] [])"
    by (simp only: closure_reachable) (rule reachable_trans)
  ultimately show ?thesis by blast
qed

theorem closure_transitive_witness:
  "set (forEach_addEventType (SystemEventTypeObjects (\<lambda>_. anyObject))
          [ProjectActivityEventType] [])
     \<subseteq> set (forEach_addEventType (SystemEventTypeObjects (\<lambda>_. anyObject))
          [UserActivityEventType] [])
   \<and> ProjectActivityEventType \<in> set (forEach_addEventType (SystemEventTypeObjects (\<lambda>_. anyObject))
          [UserActivityEventType] [])
   \<and> ProjectEventType \<in> set (forEach_addEventType (SystemEventTypeObjects (\<lambda>_. anyObject))
          [ProjectActivityEventType] [])
   \<and> ProjectEventType \<in> set (forEach_addEventType (SystemEventTypeObjects (\<lambda>_. anyObject))
          [UserActivityEventType] [])"
  using closure_transitive [of "SystemEventTypeObjects (\<lambda>_. anyObject)" UserActivityEventType
      ProjectActivityEventType ProjectEventType]
  by simp

section \<open>The two loops and the outcomes of \<open>logEvent\<close>\<close>

lemma assertEventTypesValid_None:
  "assertEventTypesValid h ets = None \<longleftrightarrow> (\<forall>t\<in>set ets. permitted h t)"
  by (induction ets) (auto simp: permitted_def)

lemma assertEventTypesValid_Some:
  "assertEventTypesValid h ets = Some f \<Longrightarrow>
     \<exists>msg t. t \<in> set ets \<and> \<not> permitted h t \<and> f = StackAssertionError msg (EventTypeExtra t) None"
  by (induction ets) (auto simp: permitted_def split: if_splits)

lemma assertEventTypesValid_ids:
  "\<forall>t\<in>set ets. id' (h' t) = id' (h t) \<Longrightarrow>
     assertEventTypesValid h' ets = assertEventTypesValid h ets"
  by (induction ets) auto

lemma validateAndTransform_Inr:
  "validateAndTransform h od ets ts d = Inr d' \<longleftrightarrow> applySchemas h ts d = Some d'"
  by (induction ts arbitrary: d) (auto split: sum.splits Thrown.splits)

lemma applySchemas_append:
  "applySchemas h (pre @ post) d = Some d' \<longleftrightarrow>
     (\<exists>dk. applySchemas h pre d = Some dk \<and> applySchemas h post dk = Some d')"
  by (induction pre arbitrary: d) (auto split: sum.splits)

lemma validateAndTransform_rejects:
  "applySchemas h pre d = Some dk \<Longrightarrow>
   validate (dataSchema (h t)) dk \<lparr>strict = True, stripUnknown = False\<rparr> = Inl e \<Longrightarrow>
   validateAndTransform h od ets (pre @ t # post) d =
     Inl (case e of
            ValidationError _ \<Rightarrow>
              StackAssertionError (''Invalid event data for event type: '' @ id' (h t))
                (InvalidDataExtra t dk e od ets) (Some e)
          | OtherError _ \<Rightarrow> Rethrown e)"
  by (induction pre arbitrary: d) (auto split: sum.splits Thrown.splits)

lemma applySchemas_keeps:
  "applySchemas h ts d = Some d' \<Longrightarrow>
   (\<forall>t\<in>set ts. \<forall>d1 d2. validate (dataSchema (h t)) d1 \<lparr>strict = True, stripUnknown = False\<rparr> = Inr d2
       \<longrightarrow> field d2 = field d1) \<Longrightarrow>
   field d' = field d"
proof (induction ts arbitrary: d)
  case Nil
  then show ?case by simp
next
  case (Cons t ts)
  from Cons.prems(1) obtain d1 where
    step: "validate (dataSchema (h t)) d \<lparr>strict = True, stripUnknown = False\<rparr> = Inr d1"
    and rest: "applySchemas h ts d1 = Some d'"
    by (auto split: sum.splits)
  from Cons.prems(2) step have "field d1 = field d" by simp
  moreover from Cons.IH[OF rest] Cons.prems(2) have "field d' = field d1" by simp
  ultimately show ?case by simp
qed

lemma applySchemas_None_Inl:
  "applySchemas h ts d = None \<Longrightarrow> \<exists>f. validateAndTransform h od ets ts d = Inl f"
  by (induction ts arbitrary: d) (auto split: sum.splits Thrown.splits)

lemma closure_cong:
  fixes h h' :: "('r::finite, 'd, 'x) Heap"
  assumes "\<forall>u. inherits (h' u) = inherits (h u)"
  shows "addEventType h' t a = addEventType h t a"
    and "forEach_addEventType h' ts a = forEach_addEventType h ts a"
  using assms
  by (induct h t a and h ts a rule: addEventType_forEach_addEventType.induct) auto

lemma applySchemas_cong:
  "\<forall>u\<in>set ts. dataSchema (h' u) = dataSchema (h u) \<Longrightarrow> applySchemas h' ts d = applySchemas h ts d"
  by (induction ts arbitrary: d) (auto split: sum.splits)

text \<open>\<open>logEvent\<close>, one outcome at a time.\<close>

lemma logEvent_rejected:
  "assertEventTypesValid h ets = Some f \<Longrightarrow> logEvent h now pc ets d opts calls = (Inl f, calls)"
  by (simp add: logEvent_def Let_def)

lemma logEvent_invalid:
  "assertEventTypesValid h ets = None \<Longrightarrow>
   validateAndTransform h d ets (forEach_addEventType h ets []) d = Inl f \<Longrightarrow>
   logEvent h now pc ets d opts calls = (Inl f, calls)"
  by (simp add: logEvent_def Let_def)

lemma logEvent_created:
  "assertEventTypesValid h ets = None \<Longrightarrow>
   validateAndTransform h d ets (forEach_addEventType h ets []) d = Inr d' \<Longrightarrow>
   \<exists>row. logEvent h now pc ets d opts calls =
       (case pc row of Some thrown \<Rightarrow> Inl (Rethrown thrown) | None \<Rightarrow> Inr (), calls @ [row])
     \<and> systemEventTypeIds row = map (\<lambda>t. id' (h t)) (forEach_addEventType h ets [])
     \<and> data row = d'
     \<and> isWide row = (case time opts of Some (ATimeRange _) \<Rightarrow> True | _ \<Rightarrow> False)
     \<and> eventStartedAt row = (case time opts of None \<Rightarrow> now | Some (ADate t) \<Rightarrow> t | Some (ATimeRange r) \<Rightarrow> start r)
     \<and> eventEndedAt row = (case time opts of None \<Rightarrow> now | Some (ADate t) \<Rightarrow> t | Some (ATimeRange r) \<Rightarrow> end' r)"
  by (auto simp: logEvent_def Let_def event_create_def split: option.splits TimeOrTimeRange.splits)


lemma logEvent_unchanged_or_one:
  "snd (logEvent h now pc ets d opts calls) = calls
   \<or> (\<exists>row. snd (logEvent h now pc ets d opts calls) = calls @ [row])"
  by (auto simp: logEvent_def Let_def event_create_def split: option.splits sum.splits)

lemma logEvent_success:
  assumes "\<forall>t\<in>set ets. permitted h t"
    and "applySchemas h (forEach_addEventType h ets []) d = Some d'"
  shows "\<exists>row. logEvent h now pc ets d opts calls =
       (case pc row of Some thrown \<Rightarrow> Inl (Rethrown thrown) | None \<Rightarrow> Inr (), calls @ [row])
     \<and> systemEventTypeIds row = map (\<lambda>t. id' (h t)) (forEach_addEventType h ets [])
     \<and> data row = d'
     \<and> isWide row = (case time opts of Some (ATimeRange _) \<Rightarrow> True | _ \<Rightarrow> False)
     \<and> eventStartedAt row = (case time opts of None \<Rightarrow> now | Some (ADate t) \<Rightarrow> t | Some (ATimeRange r) \<Rightarrow> start r)
     \<and> eventEndedAt row = (case time opts of None \<Rightarrow> now | Some (ADate t) \<Rightarrow> t | Some (ATimeRange r) \<Rightarrow> end' r)"
  using assms logEvent_created[of h ets d d' now pc opts calls]
  by (simp add: assertEventTypesValid_None validateAndTransform_Inr)

lemma logEvent_row:
  assumes "snd (logEvent h now pc ets d opts calls) = calls @ [row]"
  shows "(\<forall>t\<in>set ets. permitted h t)
     \<and> applySchemas h (forEach_addEventType h ets []) d = Some (data row)
     \<and> systemEventTypeIds row = map (\<lambda>t. id' (h t)) (forEach_addEventType h ets [])
     \<and> isWide row = (case time opts of Some (ATimeRange _) \<Rightarrow> True | _ \<Rightarrow> False)
     \<and> eventStartedAt row = (case time opts of None \<Rightarrow> now | Some (ADate t) \<Rightarrow> t | Some (ATimeRange r) \<Rightarrow> start r)
     \<and> eventEndedAt row = (case time opts of None \<Rightarrow> now | Some (ADate t) \<Rightarrow> t | Some (ATimeRange r) \<Rightarrow> end' r)"
proof (cases "assertEventTypesValid h ets")
  case (Some f)
  with assms show ?thesis by (simp add: logEvent_rejected)
next
  case None
  show ?thesis
  proof (cases "validateAndTransform h d ets (forEach_addEventType h ets []) d")
    case (Inl f)
    with None assms show ?thesis by (simp add: logEvent_invalid)
  next
    case (Inr d')
    from logEvent_created[OF None Inr, of now pc opts calls] assms None Inr
    show ?thesis
      by (auto simp: assertEventTypesValid_None validateAndTransform_Inr)
  qed
qed

lemma logEvent_failure:
  assumes "(\<exists>t\<in>set ets. \<not> permitted h t) \<or> applySchemas h (forEach_addEventType h ets []) d = None"
  shows "\<exists>f. logEvent h now pc ets d opts calls = (Inl f, calls)"
proof (cases "assertEventTypesValid h ets")
  case (Some f)
  then show ?thesis by (simp add: logEvent_rejected)
next
  case None
  with assms have "applySchemas h (forEach_addEventType h ets []) d = None"
    by (simp add: assertEventTypesValid_None)
  from applySchemas_None_Inl[OF this, of d ets] None show ?thesis
    by (auto simp: logEvent_invalid)
qed

section \<open>The validation pipeline\<close>

text \<open>
  Claim C1. When every requested type is permitted and applying the schemas of the collected
  types one after the other, in the order they were collected, each in strict mode and
  without stripping unknown fields and each to the output of the one before, ends in a
  payload, then \<open>logEvent\<close> hands the database client a row with that payload. Conversely the
  payload of a row that \<open>logEvent\<close> hands over is that result. \<open>logEvent\<close> itself changes
  nothing between two schemas: whatever can be read off the payload (the value of a field,
  say) and is left alone by every collected schema under these options is in the row as it was
  in the caller's payload.
\<close>

theorem logEvent_pipeline:
  fixes h :: "('r::finite, 'd, 'x) Heap" and field :: "'d \<Rightarrow> 'a"
  shows "((\<forall>t\<in>set ets. permitted h t)
            \<and> applySchemas h (forEach_addEventType h ets []) d = Some d'
          \<longrightarrow> (\<exists>row. snd (logEvent h now pc ets d opts calls) = calls @ [row] \<and> data row = d'))
       \<and> (snd (logEvent h now pc ets d opts calls) = calls @ [row]
          \<longrightarrow> applySchemas h (forEach_addEventType h ets []) d = Some (data row)
              \<and> ((\<forall>t\<in>set (forEach_addEventType h ets []). \<forall>d1 d2.
                     validate (dataSchema (h t)) d1 \<lparr>strict = True, stripUnknown = False\<rparr> = Inr d2
                       \<longrightarrow> field d2 = field d1)
                   \<longrightarrow> field (data row) = field d))"
proof (intro conjI impI)
  assume "(\<forall>t\<in>set ets. permitted h t) \<and> applySchemas h (forEach_addEventType h ets []) d = Some d'"
  then obtain row where
    "logEvent h now pc ets d opts calls =
       (case pc row of Some thrown \<Rightarrow> Inl (Rethrown thrown) | None \<Rightarrow> Inr (), calls @ [row])"
    and "data row = d'"
    using logEvent_success[of ets h d d' now pc opts calls] by blast
  then show "\<exists>row. snd (logEvent h now pc ets d opts calls) = calls @ [row] \<and> data row = d'"
    by auto
next
  assume "snd (logEvent h now pc ets d opts calls) = calls @ [row]"
  then show run: "applySchemas h (forEach_addEventType h ets []) d = Some (data row)"
    using logEvent_row[of h now pc ets d opts calls row] by simp
  assume "\<forall>t\<in>set (forEach_addEventType h ets []). \<forall>d1 d2.
      validate (dataSchema (h t)) d1 \<lparr>strict = True, stripUnknown = False\<rparr> = Inr d2
        \<longrightarrow> field d2 = field d1"
  with run show "field (data row) = field d" by (rule applySchemas_keeps)
qed


lemma permitted_registry:
  "permitted (SystemEventTypeObjects schemas) t"
  by (cases t)
     (simp_all add: permitted_def startsWith_def systemEventTypesById_has_def
        systemEventTypesById_def SystemEventTypes_def)

theorem logEvent_pipeline_witness:
  "permitted (SystemEventTypeObjects exampleSchemas) UserActivityEventType
   \<and> applySchemas (SystemEventTypeObjects exampleSchemas)
        (forEach_addEventType (SystemEventTypeObjects exampleSchemas) [UserActivityEventType] [])
        examplePayload = Some examplePayload
   \<and> (\<exists>row. snd (logEvent (SystemEventTypeObjects exampleSchemas) 0 (\<lambda>_. None)
                   [UserActivityEventType] examplePayload \<lparr>time = None\<rparr> []) = [] @ [row]
          \<and> data row = examplePayload \<and> data row ''extra'' = Some ''x'')"
proof -
  let ?h = "SystemEventTypeObjects exampleSchemas"
  let ?ets = "[UserActivityEventType]"
  let ?run = "logEvent ?h 0 (\<lambda>_. None) ?ets examplePayload \<lparr>time = None\<rparr> []"
  have ok: "\<forall>t\<in>set ?ets. permitted ?h t" by (simp add: permitted_registry)
  have run: "applySchemas ?h (forEach_addEventType ?h ?ets []) examplePayload = Some examplePayload"
    by (simp add: requiresField_def anyObject_def examplePayload_def)
  have keeps: "\<forall>t\<in>set (forEach_addEventType ?h ?ets []). \<forall>d1 d2.
      validate (dataSchema (?h t)) d1 \<lparr>strict = True, stripUnknown = False\<rparr> = Inr d2
        \<longrightarrow> (\<lambda>d. d ''extra'') d2 = (\<lambda>d. d ''extra'') d1"
    by (auto simp: requiresField_def anyObject_def split: option.splits)
  from ok run obtain row where row: "snd ?run = [] @ [row]" "data row = examplePayload"
    using logEvent_pipeline [of ?ets ?h examplePayload examplePayload 0 "\<lambda>_. None"
        "\<lparr>time = None\<rparr>" "[]"]
    by blast
  from row(1) keeps have "(\<lambda>d. d ''extra'') (data row) = (\<lambda>d. d ''extra'') examplePayload"
    using logEvent_pipeline [of ?ets ?h examplePayload examplePayload 0 "\<lambda>_. None"
        "\<lparr>time = None\<rparr>" "[]" row "\<lambda>d. d ''extra''"]
    by blast
  then have "data row ''extra'' = Some ''x''" by (simp add: examplePayload_def)
  moreover have "permitted ?h UserActivityEventType" by (rule permitted_registry)
  ultimately show ?thesis using run row by blast
qed

section \<open>The type-set precondition\<close>

lemma assertEventTypesValid_first:
  "\<forall>u\<in>set pre. permitted h u \<Longrightarrow> \<not> permitted h t \<Longrightarrow>
   assertEventTypesValid h (pre @ t # post) =
     Some (StackAssertionError
             (if startsWith (id' (h t)) ''$'' then ''Invalid system event type: '' @ id' (h t)
              else ''Non-system event types are not supported yet'')
             (EventTypeExtra t) None)"
  by (induction pre) (auto simp: permitted_def)

text \<open>
  Claim C2. When some requested type is not permitted (its identifier does not start with
  \<open>$\<close>, or the registry does not hold it), \<open>logEvent\<close> throws a \<open>StackAssertionError\<close> about
  such a type and the database client sees no call. The outcome is the same whatever the
  schemas, the \<open>inherits\<close> lists, the payload, the options and the database client are, as
  long as the requested types have the same identifiers: nothing was validated. The error is
  about the first requested type that is not permitted, also when permitted types precede it.
\<close>

theorem logEvent_rejects_unpermitted:
  fixes h h' :: "('r::finite, 'd, 'x) Heap"
  shows "((\<exists>t\<in>set ets. \<not> permitted h t) \<longrightarrow>
            (\<exists>msg t. t \<in> set ets \<and> \<not> permitted h t
               \<and> logEvent h now pc ets d opts calls
                    = (Inl (StackAssertionError msg (EventTypeExtra t) None), calls))
            \<and> ((\<forall>t\<in>set ets. id' (h' t) = id' (h t)) \<longrightarrow>
                 logEvent h' now' pc' ets d' opts' calls = logEvent h now pc ets d opts calls))
       \<and> ((\<forall>u\<in>set pre. permitted h u) \<and> \<not> permitted h t \<longrightarrow>
            logEvent h now pc (pre @ t # post) d opts calls =
              (Inl (StackAssertionError
                      (if startsWith (id' (h t)) ''$''
                       then ''Invalid system event type: '' @ id' (h t)
                       else ''Non-system event types are not supported yet'')
                      (EventTypeExtra t) None), calls))"
proof (intro conjI impI)
  assume bad: "\<exists>t\<in>set ets. \<not> permitted h t"
  then obtain f where f: "assertEventTypesValid h ets = Some f"
    using assertEventTypesValid_None[of h ets] by (cases "assertEventTypesValid h ets") auto
  from assertEventTypesValid_Some[OF f] obtain msg t where
    "t \<in> set ets" "\<not> permitted h t" "f = StackAssertionError msg (EventTypeExtra t) None"
    by blast
  with f show "\<exists>msg t. t \<in> set ets \<and> \<not> permitted h t
      \<and> logEvent h now pc ets d opts calls
           = (Inl (StackAssertionError msg (EventTypeExtra t) None), calls)"
    by (auto simp: logEvent_rejected)
  assume "\<forall>t\<in>set ets. id' (h' t) = id' (h t)"
  then have "assertEventTypesValid h' ets = Some f"
    using f assertEventTypesValid_ids[of ets h' h] by simp
  with f show "logEvent h' now' pc' ets d' opts' calls = logEvent h now pc ets d opts calls"
    by (simp add: logEvent_rejected)
next
  assume "(\<forall>u\<in>set pre. permitted h u) \<and> \<not> permitted h t"
  then show "logEvent h now pc (pre @ t # post) d opts calls =
      (Inl (StackAssertionError
              (if startsWith (id' (h t)) ''$''
               then ''Invalid system event type: '' @ id' (h t)
               else ''Non-system event types are not supported yet'')
              (EventTypeExtra t) None), calls)"
    by (simp add: assertEventTypesValid_first logEvent_rejected)
qed

lemma permitted_example:
  "permitted (example schemas) t \<longleftrightarrow> t = A \<or> t = D"
  by (cases t)
     (simp_all add: permitted_def startsWith_def systemEventTypesById_has_def
        systemEventTypesById_def SystemEventTypes_def)

theorem logEvent_rejects_unpermitted_witness:
  "(\<exists>t\<in>set [D, B]. \<not> permitted (example (\<lambda>_. anyObject)) t)
   \<and> permitted (example (\<lambda>_. anyObject)) D
   \<and> \<not> permitted (example (\<lambda>_. anyObject)) B
   \<and> logEvent (example (\<lambda>_. anyObject)) 0 (\<lambda>_. None) [D, B] examplePayload \<lparr>time = None\<rparr> []
       = (Inl (StackAssertionError ''Non-system event types are not supported yet''
                 (EventTypeExtra B) None), [])
   \<and> logEvent (example (\<lambda>_. brokenSchema)) 5 (\<lambda>_. Some (OtherError ''down'')) [D, B]
         Map.empty \<lparr>time = Some (ADate 7)\<rparr> []
       = logEvent (example (\<lambda>_. anyObject)) 0 (\<lambda>_. None) [D, B] examplePayload \<lparr>time = None\<rparr> []"
proof -
  let ?h = "example (\<lambda>_. anyObject)"
  let ?h' = "example (\<lambda>_. brokenSchema)"
  note inst = logEvent_rejects_unpermitted [of "[D, B]" ?h 0 "\<lambda>_. None" examplePayload
      "\<lparr>time = None\<rparr>" "[]" ?h' 5 "\<lambda>_. Some (OtherError ''down'')" Map.empty
      "\<lparr>time = Some (ADate 7)\<rparr>" "[D]" B "[]"]
  have bad: "\<exists>t\<in>set [D, B]. \<not> permitted ?h t" by (simp add: permitted_example)
  have pre: "(\<forall>u\<in>set [D]. permitted ?h u) \<and> \<not> permitted ?h B" by (simp add: permitted_example)
  have ids: "\<forall>t\<in>set [D, B]. id' (?h' t) = id' (?h t)" by simp
  from inst pre have one: "logEvent ?h 0 (\<lambda>_. None) ([D] @ B # []) examplePayload \<lparr>time = None\<rparr> []
       = (Inl (StackAssertionError
                 (if startsWith (id' (?h B)) ''$'' then ''Invalid system event type: '' @ id' (?h B)
                  else ''Non-system event types are not supported yet'')
                 (EventTypeExtra B) None), [])"
    by blast
  from inst bad ids have two: "logEvent ?h' 5 (\<lambda>_. Some (OtherError ''down'')) [D, B]
         Map.empty \<lparr>time = Some (ADate 7)\<rparr> []
       = logEvent ?h 0 (\<lambda>_. None) [D, B] examplePayload \<lparr>time = None\<rparr> []"
    by blast
  from one have "logEvent ?h 0 (\<lambda>_. None) [D, B] examplePayload \<lparr>time = None\<rparr> []
       = (Inl (StackAssertionError ''Non-system event types are not supported yet''
                 (EventTypeExtra B) None), [])"
    by (simp add: startsWith_def)
  moreover have "permitted ?h D" "\<not> permitted ?h B" by (simp_all add: permitted_example)
  ultimately show ?thesis using bad two by (intro conjI)
qed

section \<open>Time resolution\<close>

text \<open>
  Claim C3. With an explicit \<open>{ start, end }\<close> object as the \<open>time\<close> option, every row that
  \<open>logEvent\<close> hands to the database client starts at \<open>start\<close>, ends at \<open>end\<close> and is wide,
  whether or not the two dates differ; and it hands one over whenever the requested types
  are permitted and the collected schemas accept the payload.
\<close>

theorem logEvent_explicit_range:
  fixes h :: "('r::finite, 'd, 'x) Heap"
  shows "((\<forall>t\<in>set ets. permitted h t)
            \<and> applySchemas h (forEach_addEventType h ets []) d = Some d'
          \<longrightarrow> (\<exists>row. snd (logEvent h now pc ets d
                              \<lparr>time = Some (ATimeRange \<lparr>start = s, end' = e\<rparr>)\<rparr> calls) = calls @ [row]
                 \<and> eventStartedAt row = s \<and> eventEndedAt row = e \<and> isWide row))
       \<and> (snd (logEvent h now pc ets d
                  \<lparr>time = Some (ATimeRange \<lparr>start = s, end' = e\<rparr>)\<rparr> calls) = calls @ [row]
          \<longrightarrow> eventStartedAt row = s \<and> eventEndedAt row = e \<and> isWide row)"
proof (intro conjI impI)
  let ?opts = "\<lparr>time = Some (ATimeRange \<lparr>start = s, end' = e\<rparr>)\<rparr>"
  assume "(\<forall>t\<in>set ets. permitted h t) \<and> applySchemas h (forEach_addEventType h ets []) d = Some d'"
  then obtain row where
    "logEvent h now pc ets d ?opts calls =
       (case pc row of Some thrown \<Rightarrow> Inl (Rethrown thrown) | None \<Rightarrow> Inr (), calls @ [row])"
    and "eventStartedAt row = s" "eventEndedAt row = e" "isWide row"
    using logEvent_success[of ets h d d' now pc ?opts calls] by auto
  then show "\<exists>row. snd (logEvent h now pc ets d ?opts calls) = calls @ [row]
      \<and> eventStartedAt row = s \<and> eventEndedAt row = e \<and> isWide row"
    by auto
next
  let ?opts = "\<lparr>time = Some (ATimeRange \<lparr>start = s, end' = e\<rparr>)\<rparr>"
  assume row: "snd (logEvent h now pc ets d ?opts calls) = calls @ [row]"
  from logEvent_row[OF row] show "eventStartedAt row = s" by simp
  from logEvent_row[OF row] show "eventEndedAt row = e" by simp
  from logEvent_row[OF row] show "isWide row" by simp
qed

lemma example_run:
  "applySchemas (SystemEventTypeObjects exampleSchemas)
     (forEach_addEventType (SystemEventTypeObjects exampleSchemas) [UserActivityEventType] [])
     examplePayload = Some examplePayload"
  by (simp add: requiresField_def anyObject_def examplePayload_def)

theorem logEvent_explicit_range_witness:
  "permitted (SystemEventTypeObjects exampleSchemas) UserActivityEventType
   \<and> applySchemas (SystemEventTypeObjects exampleSchemas)
        (forEach_addEventType (SystemEventTypeObjects exampleSchemas) [UserActivityEventType] [])
        examplePayload = Some examplePayload
   \<and> (\<exists>row. snd (logEvent (SystemEventTypeObjects exampleSchemas) 0 (\<lambda>_. None)
                   [UserActivityEventType] examplePayload
                   \<lparr>time = Some (ATimeRange \<lparr>start = 1700000000000, end' = 1700000000000\<rparr>)\<rparr> [])
                = [] @ [row]
          \<and> eventStartedAt row = 1700000000000 \<and> eventEndedAt row = 1700000000000
          \<and> isWide row)"
proof -
  let ?h = "SystemEventTypeObjects exampleSchemas"
  have ok: "\<forall>t\<in>set [UserActivityEventType]. permitted ?h t" by (simp add: permitted_registry)
  from ok example_run
    logEvent_explicit_range [of "[UserActivityEventType]" ?h examplePayload examplePayload 0
      "\<lambda>_. None" 1700000000000 1700000000000 "[]"]
  have "\<exists>row. snd (logEvent ?h 0 (\<lambda>_. None) [UserActivityEventType] examplePayload
        \<lparr>time = Some (ATimeRange \<lparr>start = 1700000000000, end' = 1700000000000\<rparr>)\<rparr> []) = [] @ [row]
      \<and> eventStartedAt row = 1700000000000 \<and> eventEndedAt row = 1700000000000 \<and> isWide row"
    by blast
  with permitted_registry[of exampleSchemas UserActivityEventType] example_run
  show ?thesis by (intro conjI)
qed

text \<open>
  Claim C8. Without a \<open>time\<close> option, every row that \<open>logEvent\<close> hands to the database client
  starts and ends at the current time of the call and is not wide; with a single \<open>Date\<close>, it
  starts and ends at that date and is not wide. In both cases a row is handed over whenever
  the requested types are permitted and the collected schemas accept the payload.
\<close>

theorem logEvent_point_in_time:
  fixes h :: "('r::finite, 'd, 'x) Heap"
  shows "((\<forall>t\<in>set ets. permitted h t)
            \<and> applySchemas h (forEach_addEventType h ets []) d = Some d'
          \<longrightarrow> (\<exists>row. snd (logEvent h now pc ets d \<lparr>time = None\<rparr> calls) = calls @ [row]
                   \<and> eventStartedAt row = now \<and> eventEndedAt row = now \<and> \<not> isWide row)
              \<and> (\<exists>row. snd (logEvent h now pc ets d \<lparr>time = Some (ADate t)\<rparr> calls) = calls @ [row]
                   \<and> eventStartedAt row = t \<and> eventEndedAt row = t \<and> \<not> isWide row))
       \<and> (snd (logEvent h now pc ets d \<lparr>time = None\<rparr> calls) = calls @ [row]
          \<longrightarrow> eventStartedAt row = now \<and> eventEndedAt row = now \<and> \<not> isWide row)
       \<and> (snd (logEvent h now pc ets d \<lparr>time = Some (ADate t)\<rparr> calls) = calls @ [row]
          \<longrightarrow> eventStartedAt row = t \<and> eventEndedAt row = t \<and> \<not> isWide row)"
proof (intro conjI impI)
  assume ok: "(\<forall>t\<in>set ets. permitted h t)
      \<and> applySchemas h (forEach_addEventType h ets []) d = Some d'"
  then obtain row where
    "logEvent h now pc ets d \<lparr>time = None\<rparr> calls =
       (case pc row of Some thrown \<Rightarrow> Inl (Rethrown thrown) | None \<Rightarrow> Inr (), calls @ [row])"
    and "eventStartedAt row = now" "eventEndedAt row = now" "\<not> isWide row"
    using logEvent_success[of ets h d d' now pc "\<lparr>time = None\<rparr>" calls] by auto
  then show "\<exists>row. snd (logEvent h now pc ets d \<lparr>time = None\<rparr> calls) = calls @ [row]
      \<and> eventStartedAt row = now \<and> eventEndedAt row = now \<and> \<not> isWide row"
    by auto
  from ok obtain row where
    "logEvent h now pc ets d \<lparr>time = Some (ADate t)\<rparr> calls =
       (case pc row of Some thrown \<Rightarrow> Inl (Rethrown thrown) | None \<Rightarrow> Inr (), calls @ [row])"
    and "eventStartedAt row = t" "eventEndedAt row = t" "\<not> isWide row"
    using logEvent_success[of ets h d d' now pc "\<lparr>time = Some (ADate t)\<rparr>" calls] by auto
  then show "\<exists>row. snd (logEvent h now pc ets d \<lparr>time = Some (ADate t)\<rparr> calls) = calls @ [row]
      \<and> eventStartedAt row = t \<and> eventEndedAt row = t \<and> \<not> isWide row"
    by auto
next
  assume row: "snd (logEvent h now pc ets d \<lparr>time = None\<rparr> calls) = calls @ [row]"
  from logEvent_row[OF row] show "eventStartedAt row = now" by simp
  from logEvent_row[OF row] show "eventEndedAt row = now" by simp
  from logEvent_row[OF row] show "\<not> isWide row" by simp
next
  assume row: "snd (logEvent h now pc ets d \<lparr>time = Some (ADate t)\<rparr> calls) = calls @ [row]"
  from logEvent_row[OF row] show "eventStartedAt row = t" by simp
  from logEvent_row[OF row] show "eventEndedAt row = t" by simp
  from logEvent_row[OF row] show "\<not> isWide row" by simp
qed

theorem logEvent_point_in_time_witness:
  "permitted (SystemEventTypeObjects exampleSchemas) UserActivityEventType
   \<and> applySchemas (SystemEventTypeObjects exampleSchemas)
        (forEach_addEventType (SystemEventTypeObjects exampleSchemas) [UserActivityEventType] [])
        examplePayload = Some examplePayload
   \<and> (\<exists>row. snd (logEvent (SystemEventTypeObjects exampleSchemas) 1700000000000 (\<lambda>_. None)
                   [UserActivityEventType] examplePayload \<lparr>time = None\<rparr> []) = [] @ [row]
          \<and> eventStartedAt row = 1700000000000 \<and> eventEndedAt row = 1700000000000
          \<and> \<not> isWide row)
   \<and> (\<exists>row. snd (logEvent (SystemEventTypeObjects exampleSchemas) 1700000000000 (\<lambda>_. None)
                   [UserActivityEventType] examplePayload \<lparr>time = Some (ADate 42)\<rparr> []) = [] @ [row]
          \<and> eventStartedAt row = 42 \<and> eventEndedAt row = 42 \<and> \<not> isWide row)"
proof -
  let ?h = "SystemEventTypeObjects exampleSchemas"
  have ok: "\<forall>t\<in>set [UserActivityEventType]. permitted ?h t" by (simp add: permitted_registry)
  from ok example_run
    logEvent_point_in_time [of "[UserActivityEventType]" ?h examplePayload examplePayload
      1700000000000 "\<lambda>_. None" "[]" 42]
  have "(\<exists>row. snd (logEvent ?h 1700000000000 (\<lambda>_. None) [UserActivityEventType] examplePayload
          \<lparr>time = None\<rparr> []) = [] @ [row]
        \<and> eventStartedAt row = 1700000000000 \<and> eventEndedAt row = 1700000000000 \<and> \<not> isWide row)
      \<and> (\<exists>row. snd (logEvent ?h 1700000000000 (\<lambda>_. None) [UserActivityEventType] examplePayload
          \<lparr>time = Some (ADate 42)\<rparr> []) = [] @ [row]
        \<and> eventStartedAt row = 42 \<and> eventEndedAt row = 42 \<and> \<not> isWide row)"
    by blast
  with permitted_registry[of exampleSchemas UserActivityEventType] example_run
  show ?thesis by (intro conjI) blast+
qed

section \<open>An empty list of requested types\<close>

text \<open>
  Claim C9. With no requested type, \<open>logEvent\<close> throws nothing of its own: it calls the
  database client once, with a row whose list of identifiers is empty and whose payload is
  the caller's, and throws only what that call throws.
\<close>

theorem logEvent_no_types:
  fixes h :: "('r::finite, 'd, 'x) Heap"
  shows "\<exists>row. systemEventTypeIds row = [] \<and> data row = d
           \<and> logEvent h now pc [] d opts calls =
               (case pc row of None \<Rightarrow> Inr () | Some thrown \<Rightarrow> Inl (Rethrown thrown), calls @ [row])"
proof -
  obtain row where
    "logEvent h now pc [] d opts calls =
       (case pc row of Some thrown \<Rightarrow> Inl (Rethrown thrown) | None \<Rightarrow> Inr (), calls @ [row])"
    and "systemEventTypeIds row = map (\<lambda>t. id' (h t)) (forEach_addEventType h [] [])"
    and "data row = d"
    using logEvent_success[of "[]" h d d now pc opts calls] by auto
  then show ?thesis by (intro exI[of _ row]) (auto split: option.splits)
qed

theorem logEvent_no_types_witness:
  "\<exists>row. systemEventTypeIds row = [] \<and> data row = examplePayload
      \<and> logEvent (SystemEventTypeObjects exampleSchemas) 0 (\<lambda>_. None) [] examplePayload
            \<lparr>time = None\<rparr> [] = (Inr (), [row])"
  using logEvent_no_types [of examplePayload "SystemEventTypeObjects exampleSchemas" 0
      "\<lambda>_. None" "\<lparr>time = None\<rparr>" "[]"]
  by simp


section \<open>Failures\<close>

lemma logEvent_stops:
  fixes h :: "('r::finite, 'd, 'x) Heap"
  assumes "\<forall>u\<in>set ets. permitted h u"
    and "forEach_addEventType h ets [] = pre @ t # post"
    and "applySchemas h pre d = Some dk"
    and "validate (dataSchema (h t)) dk \<lparr>strict = True, stripUnknown = False\<rparr> = Inl e"
  shows "logEvent h now pc ets d opts calls =
      (Inl (case e of
              ValidationError _ \<Rightarrow>
                StackAssertionError (''Invalid event data for event type: '' @ id' (h t))
                  (InvalidDataExtra t dk e d ets) (Some e)
            | OtherError _ \<Rightarrow> Rethrown e), calls)"
proof -
  from assms(1) have "assertEventTypesValid h ets = None"
    by (simp add: assertEventTypesValid_None)
  moreover from validateAndTransform_rejects[OF assms(3,4), of d ets post] assms(2)
  have "validateAndTransform h d ets (forEach_addEventType h ets []) d =
      Inl (case e of
              ValidationError _ \<Rightarrow>
                StackAssertionError (''Invalid event data for event type: '' @ id' (h t))
                  (InvalidDataExtra t dk e d ets) (Some e)
            | OtherError _ \<Rightarrow> Rethrown e)"
    by simp
  ultimately show ?thesis by (rule logEvent_invalid)
qed

text \<open>
  Claim C6. When the schema of a collected type rejects the payload it receives (the types
  collected before it having accepted theirs), \<open>logEvent\<close> stops there. If what the schema threw
  is a validation error, \<open>logEvent\<close> throws a \<open>StackAssertionError\<close> that carries that type, the
  payload the schema received, the error (also as the cause), the caller's payload and the
  requested list; if it is anything else, \<open>logEvent\<close> throws it as it is. The database client
  sees no call, and the schemas of the types collected after it play no part: replacing them
  changes nothing.
\<close>

theorem logEvent_validation_failure:
  fixes h h' :: "('r::finite, 'd, 'x) Heap"
  assumes "\<forall>u\<in>set ets. permitted h u"
    and "forEach_addEventType h ets [] = pre @ t # post"
    and "applySchemas h pre d = Some dk"
    and "validate (dataSchema (h t)) dk \<lparr>strict = True, stripUnknown = False\<rparr> = Inl e"
  shows "logEvent h now pc ets d opts calls =
          (Inl (case e of
                  ValidationError _ \<Rightarrow>
                    StackAssertionError (''Invalid event data for event type: '' @ id' (h t))
                      (InvalidDataExtra t dk e d ets) (Some e)
                | OtherError _ \<Rightarrow> Rethrown e), calls)
       \<and> ((\<forall>u. id' (h' u) = id' (h u) \<and> inherits (h' u) = inherits (h u))
            \<and> (\<forall>u\<in>set (pre @ [t]). dataSchema (h' u) = dataSchema (h u))
          \<longrightarrow> logEvent h' now pc ets d opts calls = logEvent h now pc ets d opts calls)"
proof (intro conjI impI)
  show one: "logEvent h now pc ets d opts calls =
          (Inl (case e of
                  ValidationError _ \<Rightarrow>
                    StackAssertionError (''Invalid event data for event type: '' @ id' (h t))
                      (InvalidDataExtra t dk e d ets) (Some e)
                | OtherError _ \<Rightarrow> Rethrown e), calls)"
    using assms by (rule logEvent_stops)
  assume same: "(\<forall>u. id' (h' u) = id' (h u) \<and> inherits (h' u) = inherits (h u))
      \<and> (\<forall>u\<in>set (pre @ [t]). dataSchema (h' u) = dataSchema (h u))"
  then have inh: "\<forall>u. inherits (h' u) = inherits (h u)" by simp
  have 1: "\<forall>u\<in>set ets. permitted h' u"
    using assms(1) same by (simp add: permitted_def)
  have 2: "forEach_addEventType h' ets [] = pre @ t # post"
    using closure_cong(2)[OF inh, of ets "[]"] assms(2) by simp
  have 3: "applySchemas h' pre d = Some dk"
    using applySchemas_cong[of pre h' h d] same assms(3) by simp
  have 4: "validate (dataSchema (h' t)) dk \<lparr>strict = True, stripUnknown = False\<rparr> = Inl e"
    using same assms(4) by simp
  have "id' (h' t) = id' (h t)" using same by simp
  with logEvent_stops[OF 1 2 3 4, of now pc opts calls] one
  show "logEvent h' now pc ets d opts calls = logEvent h now pc ets d opts calls"
    by (simp split: Thrown.splits)
qed

text \<open>
  A payload without \<open>userId\<close>: the first collected schema rejects it, and the two after it
  are never asked, even when they would throw.
\<close>

theorem logEvent_validation_failure_witness:
  "logEvent (SystemEventTypeObjects exampleSchemas) 0 (\<lambda>_. None) [UserActivityEventType]
      [''projectId'' \<mapsto> ''p1''] \<lparr>time = None\<rparr> []
     = (Inl (StackAssertionError ''Invalid event data for event type: $user-activity''
               (InvalidDataExtra UserActivityEventType [''projectId'' \<mapsto> ''p1'']
                  (ValidationError ''userId'') [''projectId'' \<mapsto> ''p1''] [UserActivityEventType])
               (Some (ValidationError ''userId''))), [])
   \<and> logEvent (SystemEventTypeObjects (exampleSchemas
          (ProjectActivityEventType := brokenSchema, ProjectEventType := brokenSchema)))
        0 (\<lambda>_. None) [UserActivityEventType] [''projectId'' \<mapsto> ''p1''] \<lparr>time = None\<rparr> []
     = logEvent (SystemEventTypeObjects exampleSchemas) 0 (\<lambda>_. None) [UserActivityEventType]
        [''projectId'' \<mapsto> ''p1''] \<lparr>time = None\<rparr> []
   \<and> logEvent (SystemEventTypeObjects (\<lambda>_. brokenSchema)) 0 (\<lambda>_. None) [ProjectEventType]
      examplePayload \<lparr>time = None\<rparr> []
     = (Inl (Rethrown (OtherError ''TypeError'')), [])"
proof -
  let ?h = "SystemEventTypeObjects exampleSchemas"
  let ?h' = "SystemEventTypeObjects (exampleSchemas
      (ProjectActivityEventType := brokenSchema, ProjectEventType := brokenSchema))"
  let ?d = "[''projectId'' \<mapsto> ''p1''] :: Payload"
  have a1: "\<forall>u\<in>set [UserActivityEventType]. permitted ?h u" by (simp add: permitted_registry)
  have a2: "forEach_addEventType ?h [UserActivityEventType] []
      = [] @ UserActivityEventType # [ProjectActivityEventType, ProjectEventType]"
    by simp
  have a3: "applySchemas ?h [] ?d = Some ?d" by simp
  have a4: "validate (dataSchema (?h UserActivityEventType)) ?d \<lparr>strict = True, stripUnknown = False\<rparr>
      = Inl (ValidationError ''userId'')"
    by (simp add: requiresField_def)
  note inst = logEvent_validation_failure [OF a1 a2 a3 a4, of 0 "\<lambda>_. None" "\<lparr>time = None\<rparr>" "[]" ?h']
  have one: "logEvent ?h 0 (\<lambda>_. None) [UserActivityEventType] ?d \<lparr>time = None\<rparr> []
     = (Inl (StackAssertionError ''Invalid event data for event type: $user-activity''
               (InvalidDataExtra UserActivityEventType ?d (ValidationError ''userId'') ?d
                  [UserActivityEventType])
               (Some (ValidationError ''userId''))), [])"
    using inst [THEN conjunct1]
    by (simp only: Thrown.case SystemEventTypeObjects.simps EventType.simps append.simps)
  have same: "(\<forall>u. id' (?h' u) = id' (?h u) \<and> inherits (?h' u) = inherits (?h u))
      \<and> (\<forall>u\<in>set ([] @ [UserActivityEventType]). dataSchema (?h' u) = dataSchema (?h u))"
  proof (intro conjI allI)
    fix u show "id' (?h' u) = id' (?h u)" by (cases u) simp_all
    show "inherits (?h' u) = inherits (?h u)" by (cases u) simp_all
  qed simp
  have indep: "logEvent ?h' 0 (\<lambda>_. None) [UserActivityEventType] ?d \<lparr>time = None\<rparr> []
      = logEvent ?h 0 (\<lambda>_. None) [UserActivityEventType] ?d \<lparr>time = None\<rparr> []"
    using inst [THEN conjunct2] same by (rule mp)
  let ?b = "SystemEventTypeObjects (\<lambda>_. brokenSchema)"
  have b1: "\<forall>u\<in>set [ProjectEventType]. permitted ?b u" by (simp add: permitted_registry)
  have b2: "forEach_addEventType ?b [ProjectEventType] [] = [] @ ProjectEventType # []"
    by simp
  have b3: "applySchemas ?b [] examplePayload = Some examplePayload" by simp
  have b4: "validate (dataSchema (?b ProjectEventType)) examplePayload
      \<lparr>strict = True, stripUnknown = False\<rparr> = Inl (OtherError ''TypeError'')"
    by (simp add: brokenSchema_def)
  have two: "logEvent ?b 0 (\<lambda>_. None) [ProjectEventType] examplePayload \<lparr>time = None\<rparr> []
     = (Inl (Rethrown (OtherError ''TypeError'')), [])"
    using logEvent_validation_failure [OF b1 b2 b3 b4, of 0 "\<lambda>_. None" "\<lparr>time = None\<rparr>" "[]" ?b,
        THEN conjunct1]
    by (simp only: Thrown.case)
  from one indep two show ?thesis by (intro conjI)
qed

text \<open>
  Claim C7. One call of \<open>logEvent\<close> calls the database client at most once. It calls it only
  when every requested type is permitted and every collected schema, in order, has accepted
  the payload. When a requested type is not permitted or a collected schema rejects,
  \<open>logEvent\<close> throws and the database client sees no call.
\<close>

theorem logEvent_sink:
  fixes h :: "('r::finite, 'd, 'x) Heap"
  shows "(snd (logEvent h now pc ets d opts calls) = calls
            \<or> (\<exists>row. snd (logEvent h now pc ets d opts calls) = calls @ [row]))
       \<and> (snd (logEvent h now pc ets d opts calls) \<noteq> calls \<longrightarrow>
            (\<forall>t\<in>set ets. permitted h t)
            \<and> (\<exists>d'. applySchemas h (forEach_addEventType h ets []) d = Some d'))
       \<and> ((\<exists>t\<in>set ets. \<not> permitted h t)
            \<or> applySchemas h (forEach_addEventType h ets []) d = None \<longrightarrow>
            (\<exists>f. logEvent h now pc ets d opts calls = (Inl f, calls)))"
proof (intro conjI impI)
  show once: "snd (logEvent h now pc ets d opts calls) = calls
      \<or> (\<exists>row. snd (logEvent h now pc ets d opts calls) = calls @ [row])"
    by (rule logEvent_unchanged_or_one)
  assume "snd (logEvent h now pc ets d opts calls) \<noteq> calls"
  with once obtain row where row: "snd (logEvent h now pc ets d opts calls) = calls @ [row]"
    by blast
  from logEvent_row[OF row] show "\<forall>t\<in>set ets. permitted h t" by simp
  from logEvent_row[OF row] show "\<exists>d'. applySchemas h (forEach_addEventType h ets []) d = Some d'"
    by simp
next
  assume "(\<exists>t\<in>set ets. \<not> permitted h t)
      \<or> applySchemas h (forEach_addEventType h ets []) d = None"
  then show "\<exists>f. logEvent h now pc ets d opts calls = (Inl f, calls)"
    by (rule logEvent_failure)
qed

theorem logEvent_sink_witness:
  "snd (logEvent (SystemEventTypeObjects exampleSchemas) 0 (\<lambda>_. None) [UserActivityEventType]
          examplePayload \<lparr>time = None\<rparr> []) \<noteq> []
   \<and> (\<exists>row. snd (logEvent (SystemEventTypeObjects exampleSchemas) 0 (\<lambda>_. None)
                  [UserActivityEventType] examplePayload \<lparr>time = None\<rparr> []) = [] @ [row])
   \<and> applySchemas (SystemEventTypeObjects exampleSchemas)
        (forEach_addEventType (SystemEventTypeObjects exampleSchemas) [UserActivityEventType] [])
        [''userId'' \<mapsto> ''u1''] = None
   \<and> (\<exists>f. logEvent (SystemEventTypeObjects exampleSchemas) 0 (\<lambda>_. None) [UserActivityEventType]
          [''userId'' \<mapsto> ''u1''] \<lparr>time = None\<rparr> [] = (Inl f, []))"
proof -
  let ?h = "SystemEventTypeObjects exampleSchemas"
  let ?good = "logEvent ?h 0 (\<lambda>_. None) [UserActivityEventType] examplePayload \<lparr>time = None\<rparr> []"
  have ok: "\<forall>t\<in>set [UserActivityEventType]. permitted ?h t" by (simp add: permitted_registry)
  obtain row where "logEvent ?h 0 (\<lambda>_. None) [UserActivityEventType] examplePayload \<lparr>time = None\<rparr> []
      = (case (\<lambda>_. None) row of Some thrown \<Rightarrow> Inl (Rethrown thrown) | None \<Rightarrow> Inr (), [] @ [row])"
    using logEvent_success[OF ok example_run, of 0 "\<lambda>_. None" "\<lparr>time = None\<rparr>" "[]"] by blast
  then have changed: "snd ?good \<noteq> []" by simp
  have bad: "applySchemas ?h (forEach_addEventType ?h [UserActivityEventType] [])
      [''userId'' \<mapsto> ''u1''] = None"
    by (simp add: requiresField_def anyObject_def)
  from changed
    logEvent_sink [of ?h 0 "\<lambda>_. None" "[UserActivityEventType]" examplePayload "\<lparr>time = None\<rparr>" "[]"]
  have one: "\<exists>row. snd ?good = [] @ [row]" by blast
  from bad
    logEvent_sink [of ?h 0 "\<lambda>_. None" "[UserActivityEventType]" "[''userId'' \<mapsto> ''u1'']"
      "\<lparr>time = None\<rparr>" "[]"]
  have two: "\<exists>f. logEvent ?h 0 (\<lambda>_. None) [UserActivityEventType]
          [''userId'' \<mapsto> ''u1''] \<lparr>time = None\<rparr> [] = (Inl f, [])"
    by blast
  from changed one bad two show ?thesis by blast
qed

section \<open>Inherited types and the registry\<close>

lemma applySchemas_through:
  "applySchemas h (pre @ a # post) d = Some d' \<Longrightarrow>
   \<exists>dk dk'. applySchemas h pre d = Some dk
     \<and> validate (dataSchema (h a)) dk \<lparr>strict = True, stripUnknown = False\<rparr> = Inr dk'"
proof -
  assume "applySchemas h (pre @ a # post) d = Some d'"
  then obtain dk where pre: "applySchemas h pre d = Some dk"
    and rest: "applySchemas h (a # post) dk = Some d'"
    by (auto simp: applySchemas_append)
  from rest obtain dk' where
    "validate (dataSchema (h a)) dk \<lparr>strict = True, stripUnknown = False\<rparr> = Inr dk'"
    by (cases "validate (dataSchema (h a)) dk \<lparr>strict = True, stripUnknown = False\<rparr>") auto
  with pre show ?thesis by blast
qed

text \<open>
  Claim C10. The registry is asked about the requested types only. When these are
  permitted, a type that the \<open>inherits\<close> relation reaches from them is collected whatever
  its identifier is: when the collected schemas accept the payload, its schema was among those
  that accepted and its identifier is in the row handed to the database client; when its
  schema rejects the payload it receives, \<open>logEvent\<close> throws.
\<close>

theorem logEvent_inherited_types_unchecked:
  fixes h :: "('r::finite, 'd, 'x) Heap"
  assumes "\<forall>t\<in>set ets. permitted h t"
    and "reachable h ets a"
  shows "a \<in> set (forEach_addEventType h ets [])
       \<and> (applySchemas h (forEach_addEventType h ets []) d = Some d' \<longrightarrow>
            (\<exists>row. snd (logEvent h now pc ets d opts calls) = calls @ [row]
               \<and> id' (h a) \<in> set (systemEventTypeIds row))
            \<and> (\<exists>pre post dk dk'. forEach_addEventType h ets [] = pre @ a # post
                 \<and> applySchemas h pre d = Some dk
                 \<and> validate (dataSchema (h a)) dk \<lparr>strict = True, stripUnknown = False\<rparr> = Inr dk'))
       \<and> (forEach_addEventType h ets [] = pre @ a # post \<and> applySchemas h pre d = Some dk
            \<and> validate (dataSchema (h a)) dk \<lparr>strict = True, stripUnknown = False\<rparr> = Inl e \<longrightarrow>
            (\<exists>f. logEvent h now pc ets d opts calls = (Inl f, calls)))"
proof (intro conjI impI)
  show mem: "a \<in> set (forEach_addEventType h ets [])"
    using assms(2) by (rule closure_complete)
  {
    assume run: "applySchemas h (forEach_addEventType h ets []) d = Some d'"
    from logEvent_success[OF assms(1) run, of now pc opts calls] obtain row where
      "logEvent h now pc ets d opts calls =
         (case pc row of Some thrown \<Rightarrow> Inl (Rethrown thrown) | None \<Rightarrow> Inr (), calls @ [row])"
      and "systemEventTypeIds row = map (\<lambda>t. id' (h t)) (forEach_addEventType h ets [])"
      by blast
    with mem show "\<exists>row. snd (logEvent h now pc ets d opts calls) = calls @ [row]
        \<and> id' (h a) \<in> set (systemEventTypeIds row)"
      by (intro exI[of _ row]) auto
    from mem obtain pre post where split: "forEach_addEventType h ets [] = pre @ a # post"
      by (auto simp: in_set_conv_decomp)
    with run applySchemas_through[of h pre a post d d']
    show "\<exists>pre post dk dk'. forEach_addEventType h ets [] = pre @ a # post
        \<and> applySchemas h pre d = Some dk
        \<and> validate (dataSchema (h a)) dk \<lparr>strict = True, stripUnknown = False\<rparr> = Inr dk'"
      by auto
  }
  assume "forEach_addEventType h ets [] = pre @ a # post \<and> applySchemas h pre d = Some dk
      \<and> validate (dataSchema (h a)) dk \<lparr>strict = True, stripUnknown = False\<rparr> = Inl e"
  with logEvent_stops[OF assms(1), of pre a post d dk e now pc opts calls]
  show "\<exists>f. logEvent h now pc ets d opts calls = (Inl f, calls)"
    by blast
qed

text \<open>
  In the store \<open>example\<close>, \<open>A\<close> is registered; its parents \<open>B\<close> (\<open>page-view\<close>) and \<open>C\<close>
  (\<open>$unregistered\<close>) are not permitted, and both identifiers reach the database client.
\<close>

theorem logEvent_inherited_types_unchecked_witness:
  "permitted (example (\<lambda>_. anyObject)) A
   \<and> reachable (example (\<lambda>_. anyObject)) [A] B
   \<and> reachable (example (\<lambda>_. anyObject)) [A] C
   \<and> \<not> permitted (example (\<lambda>_. anyObject)) B
   \<and> \<not> permitted (example (\<lambda>_. anyObject)) C
   \<and> (\<exists>row. snd (logEvent (example (\<lambda>_. anyObject)) 0 (\<lambda>_. None) [A] examplePayload
                  \<lparr>time = None\<rparr> []) = [] @ [row]
          \<and> ''page-view'' \<in> set (systemEventTypeIds row))
   \<and> (\<exists>row. snd (logEvent (example (\<lambda>_. anyObject)) 0 (\<lambda>_. None) [A] examplePayload
                  \<lparr>time = None\<rparr> []) = [] @ [row]
          \<and> ''$unregistered'' \<in> set (systemEventTypeIds row))
   \<and> (\<exists>f. logEvent (example ((\<lambda>_. anyObject)(B := brokenSchema))) 0 (\<lambda>_. None) [A] examplePayload
                  \<lparr>time = None\<rparr> [] = (Inl f, []))"
proof -
  let ?h = "example (\<lambda>_. anyObject)"
  let ?g = "example ((\<lambda>_. anyObject)(B := brokenSchema))"
  have ok: "\<forall>t\<in>set [A]. permitted ?h t" by (simp add: permitted_example)
  have okg: "\<forall>t\<in>set [A]. permitted ?g t" by (simp add: permitted_example)
  have start: "reachable h [A] A" for h :: "(Addr, Payload, string) Heap"
    by (rule reachable.requested) simp
  have rB: "reachable ?h [A] B" by (rule reachable.inherited[OF start]) simp
  have rC: "reachable ?h [A] C" by (rule reachable.inherited[OF start]) simp
  have rBg: "reachable ?g [A] B" by (rule reachable.inherited[OF start]) simp
  have run: "applySchemas ?h (forEach_addEventType ?h [A] []) examplePayload = Some examplePayload"
    by (simp add: anyObject_def)
  have notB: "\<not> permitted ?h B" and notC: "\<not> permitted ?h C"
    by (simp_all add: permitted_example)
  have one: "\<exists>row. snd (logEvent ?h 0 (\<lambda>_. None) [A] examplePayload \<lparr>time = None\<rparr> []) = [] @ [row]
      \<and> ''page-view'' \<in> set (systemEventTypeIds row)"
    using logEvent_inherited_types_unchecked [OF ok rB, of examplePayload examplePayload 0
        "\<lambda>_. None" "\<lparr>time = None\<rparr>" "[]"] run
    by simp
  have two: "\<exists>row. snd (logEvent ?h 0 (\<lambda>_. None) [A] examplePayload \<lparr>time = None\<rparr> []) = [] @ [row]
      \<and> ''$unregistered'' \<in> set (systemEventTypeIds row)"
    using logEvent_inherited_types_unchecked [OF ok rC, of examplePayload examplePayload 0
        "\<lambda>_. None" "\<lparr>time = None\<rparr>" "[]"] run
    by simp
  have split: "forEach_addEventType ?g [A] [] = [A] @ B # [C] \<and> applySchemas ?g [A] examplePayload = Some examplePayload
      \<and> validate (dataSchema (?g B)) examplePayload \<lparr>strict = True, stripUnknown = False\<rparr>
          = Inl (OtherError ''TypeError'')"
    by (simp add: anyObject_def brokenSchema_def)
  have three: "\<exists>f. logEvent ?g 0 (\<lambda>_. None) [A] examplePayload \<lparr>time = None\<rparr> [] = (Inl f, [])"
    using logEvent_inherited_types_unchecked [OF okg rBg, of examplePayload examplePayload
        0 "\<lambda>_. None" "\<lparr>time = None\<rparr>" "[]" "[A]" "[C]" examplePayload "OtherError ''TypeError''"]
      split
    by blast
  have "permitted ?h A" by (simp add: permitted_example)
  with rB rC notB notC one two three show ?thesis by (intro conjI)
qed


end
